theory Spec2Isabelle
  imports Complex_Main "HOL-Library.Signed_Division" "HOL-Library.Multiset" "HOL-Library.Log_Nat"
begin

section \<open>Conventions of the embedding\<close>

text \<open>
  The repository is a flat set of JavaScript helpers, kept in several revisions:
  \<^verbatim>\<open>src/utils.js\<close> (the oldest) and three later revisions stored one after the other in
  \<^verbatim>\<open>src/unnamed/part_000\<close> (lines 1-230, 230-598 and 598-959). A definition without a
  suffix embeds the last revision; the suffix \<open>_utils\<close> marks the text of
  \<^verbatim>\<open>src/utils.js\<close> and \<open>_rev2\<close> the second revision of \<^verbatim>\<open>part_000\<close>.

  JavaScript numbers are IEEE doubles. Where a result depends on the arithmetic of
  numbers (\<open>random\<close>, \<open>wrap\<close>, \<open>random_normal\<close>) they are \<open>js_number\<close>s and every
  operation rounds (section Double arithmetic). Indices and counts are \<open>int\<close> or
  \<open>nat\<close>; the easing curves and the index \<open>floor (r * n)\<close> of a draw are written over
  \<open>real\<close>, at values where the double result is the exact one.
  An omitted, \<open>undefined\<close> or \<open>null\<close> argument is \<open>None\<close>.
  A call of \<^verbatim>\<open>Math.random()\<close> is a parameter: a single draw \<open>r\<close>, or a sequence
  \<open>rnd\<close> whose \<open>k\<close>-th element is the result of the \<open>k\<close>-th call.
\<close>

section \<open>Grid coordinates\<close>

text \<open>
  \<^verbatim>\<open>const xy_from_index = (i, width) => {
    const x = i % width;
    const y = Math.floor(i / width);
    return { x: x, y: y };
  };\<close>
  The remainder \<^verbatim>\<open>%\<close> of JavaScript takes the sign of the dividend (\<open>smod\<close>);
  \<^verbatim>\<open>Math.floor\<close> of the quotient is \<open>div\<close> on \<open>int\<close>. The fields of the returned
  object are \<open>px\<close> and \<open>py\<close>. A width of zero gives \<open>NaN\<close> in the source and is
  outside the embedding.
\<close>

record point =
  px :: int
  py :: int

definition xy_from_index :: "int \<Rightarrow> int \<Rightarrow> point" where
  "xy_from_index i width =
     (let x = i smod width;
          y = i div width
      in \<lparr>px = x, py = y\<rparr>)"

text \<open>\<^verbatim>\<open>const index_from_xy = (x, y, width) => { return x + width * y; };\<close>\<close>

definition index_from_xy :: "int \<Rightarrow> int \<Rightarrow> int \<Rightarrow> int" where
  "index_from_xy x y width = x + width * y"

section \<open>Polynomial easing\<close>

text \<open>
  Last revision (lines 946-959):
  \<^verbatim>\<open>const poly_ease_in = (x, n = 2) => { return x ** n; };\<close>
  \<^verbatim>\<open>const poly_ease_out = (x, n = 2) => { return 1 - (1 - x) ** n; };\<close>
  The degree is a natural number; \<open>0 ^ 0 = 1\<close> in HOL as \<^verbatim>\<open>0 ** 0\<close> is \<open>1\<close> in
  JavaScript.
\<close>

definition poly_ease_in :: "real \<Rightarrow> nat \<Rightarrow> real" where
  "poly_ease_in x n = x ^ n"

definition poly_ease_out :: "real \<Rightarrow> nat \<Rightarrow> real" where
  "poly_ease_out x n = 1 - (1 - x) ^ n"

text \<open>
  Second revision (lines 584-597):
  \<^verbatim>\<open>const poly_ease_in = (x, n) => { return Math.pow(2, n - 1) * Math.pow(x, n); };\<close>
  \<^verbatim>\<open>const poly_ease_out = (x, n) => { return 1 - Math.pow(-2 * x + 2, n) / 2; };\<close>
  The exponent \<open>n - 1\<close> is negative at \<open>n = 0\<close>, hence \<open>powi\<close>.
\<close>

definition poly_ease_in_rev2 :: "real \<Rightarrow> nat \<Rightarrow> real" where
  "poly_ease_in_rev2 x n = 2 powi (int n - 1) * x ^ n"

definition poly_ease_out_rev2 :: "real \<Rightarrow> nat \<Rightarrow> real" where
  "poly_ease_out_rev2 x n = 1 - (- 2 * x + 2) ^ n / 2"

section \<open>Double arithmetic\<close>

text \<open>
  A number is a finite double, an infinity or \<open>NaN\<close>. A finite double is the real
  number it stands for (the two zeros are not told apart). \<open>round_double\<close> is the
  rounding of IEEE 754 binary64, to nearest with ties to even: \<open>exponent x\<close> is the
  \<open>e\<close> with \<open>2^e \<le> |x| < 2^(e+1)\<close>, the result is a multiple of \<open>2^(e-52)\<close> (of
  \<open>2^(-1074)\<close> for subnormal numbers), and a result of \<open>2^1024\<close> or more overflows to an
  infinity. \<open>is_double\<close> holds of the reals that are doubles.
\<close>

datatype js_number = Finite real | PosInf | NegInf | NaN

definition exponent :: "real \<Rightarrow> int" where
  "exponent x =
     (if 1 \<le> \<bar>x\<bar> then bitlen \<lfloor>\<bar>x\<bar>\<rfloor> - 1 else - bitlen (\<lceil>1 / \<bar>x\<bar>\<rceil> - 1))"

definition round_half_even :: "real \<Rightarrow> int" where
  "round_half_even y =
     (let f = \<lfloor>y\<rfloor>; d = y - of_int f
      in if d < 1 / 2 then f else if 1 / 2 < d then f + 1 else if even f then f else f + 1)"

definition round_double :: "real \<Rightarrow> js_number" where
  "round_double x =
     (if x = 0 then Finite 0
      else
        let e = max (exponent x) (- 1022);
            q = 2 powi (e - 52);
            y = of_int (round_half_even (x / q)) * q
        in if 2 powi 1024 \<le> \<bar>y\<bar> then (if 0 < x then PosInf else NegInf) else Finite y)"

definition is_double :: "real \<Rightarrow> bool" where
  "is_double x \<longleftrightarrow> round_double x = Finite x"

text \<open>
  The operators \<^verbatim>\<open>+\<close>, \<^verbatim>\<open>-\<close>, \<^verbatim>\<open>*\<close> and \<^verbatim>\<open><\<close> of JavaScript on numbers: the exact
  result rounded, with the rules of IEEE 754 for the infinities and \<open>NaN\<close>.
\<close>

fun js_neg :: "js_number \<Rightarrow> js_number" where
  "js_neg (Finite a) = Finite (- a)"
| "js_neg PosInf = NegInf"
| "js_neg NegInf = PosInf"
| "js_neg NaN = NaN"

fun js_add :: "js_number \<Rightarrow> js_number \<Rightarrow> js_number" where
  "js_add (Finite a) (Finite b) = round_double (a + b)"
| "js_add NaN b = NaN"
| "js_add a NaN = NaN"
| "js_add PosInf NegInf = NaN"
| "js_add NegInf PosInf = NaN"
| "js_add PosInf b = PosInf"
| "js_add NegInf b = NegInf"
| "js_add (Finite a) b = b"

definition js_sub :: "js_number \<Rightarrow> js_number \<Rightarrow> js_number" where
  "js_sub a b = js_add a (js_neg b)"

fun js_sign :: "js_number \<Rightarrow> int" where
  "js_sign (Finite a) = (if 0 < a then 1 else if a < 0 then - 1 else 0)"
| "js_sign PosInf = 1"
| "js_sign NegInf = - 1"
| "js_sign NaN = 0"

fun js_mul :: "js_number \<Rightarrow> js_number \<Rightarrow> js_number" where
  "js_mul (Finite a) (Finite b) = round_double (a * b)"
| "js_mul NaN b = NaN"
| "js_mul a NaN = NaN"
| "js_mul a b =
     (let s = js_sign a * js_sign b
      in if s = 0 then NaN else if 0 < s then PosInf else NegInf)"

fun js_less :: "js_number \<Rightarrow> js_number \<Rightarrow> bool" where
  "js_less (Finite a) (Finite b) \<longleftrightarrow> a < b"
| "js_less NaN b \<longleftrightarrow> False"
| "js_less a NaN \<longleftrightarrow> False"
| "js_less a NegInf \<longleftrightarrow> False"
| "js_less PosInf b \<longleftrightarrow> False"
| "js_less NegInf b \<longleftrightarrow> True"
| "js_less (Finite a) PosInf \<longleftrightarrow> True"

section \<open>Uniform random numbers\<close>

text \<open>
  Last revision (lines 607-617):
  \<^verbatim>\<open>const random = (a = null, b = null) => {
    if (a == null && b == null) { a = 0; b = 1; }
    else if (b == null) { b = a; a = 0; }
    return Math.random() * (b - a) + a;
  };\<close>
  When only \<open>b\<close> is given, \<open>a\<close> stays \<open>null\<close>, which arithmetic reads as \<open>0\<close>
  (\<open>to_number\<close>). The draw \<open>r\<close> is the double returned by \<^verbatim>\<open>Math.random()\<close>.
\<close>

definition to_number :: "js_number option \<Rightarrow> js_number" where
  "to_number v = (case v of None \<Rightarrow> Finite 0 | Some n \<Rightarrow> n)"

definition random :: "real \<Rightarrow> js_number option \<Rightarrow> js_number option \<Rightarrow> js_number" where
  "random r a b =
     (let (a', b') =
            (if a = None \<and> b = None then (Some (Finite 0), Some (Finite 1))
             else if b = None then (Some (Finite 0), a)
             else (a, b))
      in js_add (js_mul (Finite r) (js_sub (to_number b') (to_number a'))) (to_number a'))"

text \<open>
  \<^verbatim>\<open>src/utils.js\<close>, lines 1-5:
  \<^verbatim>\<open>const random = (a, b) => {
    if (a == undefined && b == undefined) return random(0, 1);
    else if (b == undefined) return random(0, a);
    else if (a != undefined && b != undefined) return Math.random() * (b - a) + a;
  };\<close>
  No branch is taken when only \<open>b\<close> is given: the function returns \<open>undefined\<close>
  (\<open>None\<close>). \<^verbatim>\<open>Math.random\<close> is called once, in the last branch.
\<close>

function random_utils ::
    "real \<Rightarrow> js_number option \<Rightarrow> js_number option \<Rightarrow> js_number option" where
  "random_utils r a b =
     (if a = None \<and> b = None then random_utils r (Some (Finite 0)) (Some (Finite 1))
      else if b = None then random_utils r (Some (Finite 0)) a
      else if a \<noteq> None \<and> b \<noteq> None
        then Some (js_add (js_mul (Finite r) (js_sub (the b) (the a))) (the a))
      else None)"
  by pat_completeness auto
termination
  by (relation "measure (\<lambda>(r, a, b). if b = None then 1 else 0)") auto

declare random_utils.simps [simp del]

section \<open>Wrapping a value into an interval\<close>

text \<open>
  The same text in every revision (last revision, lines 775-779):
  \<^verbatim>\<open>const wrap = (value, min_val = 0, max_val = 1) => {
    while (value > max_val) value -= max_val - min_val;
    while (value < min_val) value += max_val - min_val;
    return value;
  };\<close>
  Each loop is a recursive function that may not return: \<open>None\<close> is a loop that
  never ends (as the first one does for \<open>max_val \<le> min_val\<close> and a value above
  \<open>max_val\<close>). The parameter \<open>value\<close> is written \<open>val\<close>.
\<close>

partial_function (option) wrap_down ::
    "js_number \<Rightarrow> js_number \<Rightarrow> js_number \<Rightarrow> js_number option" where
  "wrap_down val min_val max_val =
     (if js_less max_val val
      then wrap_down (js_sub val (js_sub max_val min_val)) min_val max_val
      else Some val)"

partial_function (option) wrap_up ::
    "js_number \<Rightarrow> js_number \<Rightarrow> js_number \<Rightarrow> js_number option" where
  "wrap_up val min_val max_val =
     (if js_less val min_val
      then wrap_up (js_add val (js_sub max_val min_val)) min_val max_val
      else Some val)"

definition wrap :: "js_number \<Rightarrow> js_number \<Rightarrow> js_number \<Rightarrow> js_number option" where
  "wrap val min_val max_val =
     Option.bind (wrap_down val min_val max_val) (\<lambda>val'. wrap_up val' min_val max_val)"

section \<open>Arrays and random choices\<close>

text \<open>
  No function of the repository holds a \<^verbatim>\<open>throw\<close>; the specification names one error
  for a reimplementation. The functions below return \<open>Inr\<close> of their result
  (\<open>Inl\<close> would be a raised error).
\<close>

datatype error = EmptyInputError

text \<open>
  The read \<^verbatim>\<open>a[i]\<close> of a JavaScript array gives \<open>undefined\<close> (\<open>None\<close>) when \<open>i\<close>
  is not an index of the array.
\<close>

definition js_index :: "'a list \<Rightarrow> int \<Rightarrow> 'a option" where
  "js_index a i = (if 0 \<le> i \<and> i < int (length a) then Some (a ! nat i) else None)"

text \<open>
  Last revision (lines 689-691):
  \<^verbatim>\<open>const random_from_array = (a) => {
    return a[Math.floor(Math.random() * a.length)];
  };\<close>
\<close>

definition random_from_array :: "real \<Rightarrow> 'a list \<Rightarrow> error + 'a option" where
  "random_from_array r a = Inr (js_index a \<lfloor>r * real (length a)\<rfloor>)"

text \<open>
  \<^verbatim>\<open>src/utils.js\<close>, lines 7-11 and 17-19:
  \<^verbatim>\<open>const random_int = (a, b) => {
    if (a == undefined && b == undefined) return random_int(0, 1);
    else if (b == undefined) return random_int(0, a);
    else if (a != undefined && b != undefined) return Math.floor(Math.random() * (b - a)) + a;
  };\<close>
  \<^verbatim>\<open>const random_from_array = arr => {
    return arr[random_int(arr.length - 1)];
  };\<close>
  The bounds of \<open>random_int\<close> are integers here. An index \<open>undefined\<close> reads
  \<open>undefined\<close>.
\<close>

function random_int_utils :: "real \<Rightarrow> int option \<Rightarrow> int option \<Rightarrow> int option" where
  "random_int_utils r a b =
     (if a = None \<and> b = None then random_int_utils r (Some 0) (Some 1)
      else if b = None then random_int_utils r (Some 0) a
      else if a \<noteq> None \<and> b \<noteq> None
        then Some (\<lfloor>r * real_of_int (the b - the a)\<rfloor> + the a)
      else None)"
  by pat_completeness auto
termination
  by (relation "measure (\<lambda>(r, a, b). if b = None then 1 else 0)") auto

declare random_int_utils.simps [simp del]

definition random_from_array_utils :: "real \<Rightarrow> 'a list \<Rightarrow> error + 'a option" where
  "random_from_array_utils r arr =
     Inr (case random_int_utils r (Some (int (length arr) - 1)) None of
            None \<Rightarrow> None
          | Some i \<Rightarrow> js_index arr i)"

text \<open>
  \<^verbatim>\<open>src/utils.js\<close>, lines 43-48 (and the first revision of \<^verbatim>\<open>part_000\<close>):
  \<^verbatim>\<open>const shuffle_array = arr => {
    for (let i = arr.length - 1; i > 0; i--) {
      const j = Math.floor(Math.random() * (i + 1));
      [arr[i], arr[j]] = [arr[j], arr[i]];
    }
  };\<close>
  The function returns nothing; the result of the embedding is the content of the
  argument array after the call. The \<open>k\<close>-th call of \<^verbatim>\<open>Math.random\<close> is \<open>rnd k\<close>.
  For a draw in \<open>[0,1)\<close> the index \<open>j\<close> lies in \<open>0..i\<close>, and the two writes are list
  updates.
\<close>

function shuffle_loop :: "(nat \<Rightarrow> real) \<Rightarrow> nat \<Rightarrow> int \<Rightarrow> 'a list \<Rightarrow> 'a list" where
  "shuffle_loop rnd k i arr =
     (if i > 0 then
        (let j = \<lfloor>rnd k * real_of_int (i + 1)\<rfloor>
         in shuffle_loop rnd (k + 1) (i - 1) (arr[nat i := arr ! nat j, nat j := arr ! nat i]))
      else arr)"
  by pat_completeness auto
termination
  by (relation "measure (\<lambda>(rnd, k, i, arr). nat i)") auto

declare shuffle_loop.simps [simp del]

definition shuffle_array_utils :: "(nat \<Rightarrow> real) \<Rightarrow> 'a list \<Rightarrow> error + 'a list" where
  "shuffle_array_utils rnd arr = Inr (shuffle_loop rnd 0 (int (length arr) - 1) arr)"

text \<open>
  Last revision (lines 698-702 and 906-912):
  \<^verbatim>\<open>const shuffle_array = (a) => {
    a.map((x) => ({ val: x, order: Math.random() }))
      .sort((a, b) => a.order - b.order)
      .map((x) => x.val);
  };\<close>
  \<^verbatim>\<open>const shuffle_string = (string) =>
    string.split("").map((s) => ({ val: s, order: Math.random() }))
      .sort((a, b) => a.order - b.order).map((s) => s.val).join("");\<close>
  The object \<^verbatim>\<open>{val, order}\<close> is a pair; \<^verbatim>\<open>sort\<close> is stable and ascending in
  \<open>order\<close>. \<^verbatim>\<open>map\<close> builds a new array, so \<open>shuffle_array\<close> sorts a copy, drops it
  and leaves its argument as it was; \<open>shuffle_string\<close> returns the sorted copy.
\<close>

definition sort_by_random_order :: "(nat \<Rightarrow> real) \<Rightarrow> 'a list \<Rightarrow> 'a list" where
  "sort_by_random_order rnd a =
     map fst (sort_key snd (map (\<lambda>(x, k). (x, rnd k)) (zip a [0..<length a])))"

definition shuffle_array :: "(nat \<Rightarrow> real) \<Rightarrow> 'a list \<Rightarrow> error + 'a list" where
  "shuffle_array rnd a = (let dropped = sort_by_random_order rnd a in Inr a)"

definition shuffle_string :: "(nat \<Rightarrow> real) \<Rightarrow> string \<Rightarrow> error + string" where
  "shuffle_string rnd s = Inr (sort_by_random_order rnd s)"

text \<open>
  Last and second revision (lines 920-926, 557-563):
  \<^verbatim>\<open>const random_string = (len) => {
    let result = "";
    let characters =
      "ABCDEFGHIJKLMNOPQRSTUVWXYZabcdefghijklmnopqrstuvwxyz0123456789".split("");
    for (let i = 0; i < len; i++) result += random_from_array(characters);
    return result;
  };\<close>
  Iteration \<open>i\<close> makes the \<open>i\<close>-th call of \<^verbatim>\<open>Math.random\<close>. Appending \<open>undefined\<close>
  to a string appends its name.
\<close>

definition characters :: string where
  "characters = ''ABCDEFGHIJKLMNOPQRSTUVWXYZabcdefghijklmnopqrstuvwxyz0123456789''"

function random_string_loop :: "(nat \<Rightarrow> real) \<Rightarrow> nat \<Rightarrow> nat \<Rightarrow> string \<Rightarrow> error + string" where
  "random_string_loop rnd i len result =
     (if i < len then
        (case random_from_array (rnd i) characters of
           Inl e \<Rightarrow> Inl e
         | Inr None \<Rightarrow> random_string_loop rnd (i + 1) len (result @ ''undefined'')
         | Inr (Some c) \<Rightarrow> random_string_loop rnd (i + 1) len (result @ [c]))
      else Inr result)"
  by pat_completeness auto
termination
  by (relation "measure (\<lambda>(rnd, i, len, result). len - i)") auto

declare random_string_loop.simps [simp del]

definition random_string :: "(nat \<Rightarrow> real) \<Rightarrow> nat \<Rightarrow> error + string" where
  "random_string rnd len = random_string_loop rnd 0 len []"

section \<open>Hexadecimal conversion\<close>

text \<open>
  Last revision (lines 875-880):
  \<^verbatim>\<open>const dec_to_hex = (dec, padding = 0, prefix = false, round = true) => {
    if (round) dec = Math.floor(dec);
    let hex = dec.toString(16).padStart(padding, "0").toUpperCase();
    if (prefix) hex = "0x" + hex;
    return hex;
  };\<close>
  The parameter \<open>round\<close> is written \<open>do_round\<close>. The number is an integer, on which \<^verbatim>\<open>Math.floor\<close> changes nothing.
  \<^verbatim>\<open>toString(16)\<close> writes a minus sign and the digits \<open>0-9a-f\<close> with no leading
  zero; \<^verbatim>\<open>padStart\<close> fills on the left up to the target length;
  \<^verbatim>\<open>toUpperCase\<close> maps the letters \<open>a-z\<close> and keeps the other characters met here.
\<close>

definition hex_digit :: "nat \<Rightarrow> char" where
  "hex_digit d = ''0123456789abcdef'' ! d"

function digits16 :: "nat \<Rightarrow> string" where
  "digits16 n = (if n < 16 then [hex_digit n] else digits16 (n div 16) @ [hex_digit (n mod 16)])"
  by pat_completeness auto
termination
  by (relation "measure id") auto

declare digits16.simps [simp del]

definition to_string_16 :: "int \<Rightarrow> string" where
  "to_string_16 n = (if n < 0 then CHR ''-'' # digits16 (nat (- n)) else digits16 (nat n))"

definition pad_start :: "int \<Rightarrow> char \<Rightarrow> string \<Rightarrow> string" where
  "pad_start target c s = replicate (nat (target - int (length s))) c @ s"

definition to_upper_char :: "char \<Rightarrow> char" where
  "to_upper_char c =
     (case map_of (zip ''abcdefghijklmnopqrstuvwxyz'' ''ABCDEFGHIJKLMNOPQRSTUVWXYZ'') c of
        None \<Rightarrow> c
      | Some u \<Rightarrow> u)"

definition dec_to_hex :: "int \<Rightarrow> int \<Rightarrow> bool \<Rightarrow> bool \<Rightarrow> string" where
  "dec_to_hex dec padding prefix do_round =
     (let dec' = (if do_round then \<lfloor>real_of_int dec\<rfloor> else dec);
          hex = map to_upper_char (pad_start padding CHR ''0'' (to_string_16 dec'));
          hex' = (if prefix then ''0x'' @ hex else hex)
      in hex')"

text \<open>
  \<^verbatim>\<open>const hex_to_dec = (hex) => parseInt(hex, 16);\<close>
  \<^verbatim>\<open>parseInt\<close> with radix 16 skips leading white space, reads a sign, skips one
  \<^verbatim>\<open>0x\<close> or \<^verbatim>\<open>0X\<close>, and reads hexadecimal digits of either case up to the first
  other character; with no digit the result is \<open>NaN\<close> (\<open>None\<close>).
\<close>

definition is_white_space :: "char \<Rightarrow> bool" where
  "is_white_space c \<longleftrightarrow> (of_char c :: nat) = 32 \<or> (9 \<le> (of_char c :: nat) \<and> (of_char c :: nat) \<le> 13)"

definition hex_value :: "char \<Rightarrow> nat option" where
  "hex_value c =
     (let n = (of_char c :: nat)
      in if 48 \<le> n \<and> n \<le> 57 then Some (n - 48)
         else if 97 \<le> n \<and> n \<le> 102 then Some (n - 87)
         else if 65 \<le> n \<and> n \<le> 70 then Some (n - 55)
         else None)"

definition parse_int_16 :: "string \<Rightarrow> int option" where
  "parse_int_16 str =
     (let s = dropWhile is_white_space str;
          sign = (if take 1 s = ''-'' then - 1 else 1);
          s = (if take 1 s = ''+'' \<or> take 1 s = ''-'' then drop 1 s else s);
          s = (if take 2 s = ''0x'' \<or> take 2 s = ''0X'' then drop 2 s else s);
          z = takeWhile (\<lambda>c. hex_value c \<noteq> None) s
      in if z = [] then None
         else Some (sign * int (foldl (\<lambda>acc c. 16 * acc + the (hex_value c)) 0 z)))"

definition hex_to_dec :: "string \<Rightarrow> int option" where
  "hex_to_dec hex = parse_int_16 hex"

section \<open>Normal random numbers\<close>

text \<open>
  The same text in every revision (last revision, lines 661-681):
  \<^verbatim>\<open>const random_normal = (min = 0, max = 1, skew = 0) => {
    let u, v;
    u = 0;
    v = 0;
    while (u == 0) u = Math.random(); // convert [0,1) to (0,1)
    while (v == 0) v = Math.random();
    let num;
    num = Math.sqrt(-2.0 * Math.log(u)) * Math.cos(2.0 * Math.PI * v);
    num = num / 10.0 + 0.5; // translate to 0 -> 1
    if (num > 1 || num < 0) {
      num = random_normal(min, max, skew); // resample between 0 and 1 if out of range
    } else {
      num = Math.pow(num, skew); // skew
      num *= max - min; // stretch to fill range
      num += min; // offset to min
    }
    return num;
  };\<close>
  \<open>math_pow\<close> is \<^verbatim>\<open>Math.pow\<close> on a base that is not negative, as on the branch that
  calls it: any number to the power \<open>0\<close> is \<open>1\<close>, and \<open>0\<close> to a negative power is
  \<open>Infinity\<close>. The square root, logarithm, cosine and the other powers are left to the
  implementation by the language; they are written with their exact values. The
  stretch and the offset are double operations. The parameters \<open>min\<close> and \<open>max\<close> are
  written \<open>mn\<close> and \<open>mx\<close>.
\<close>

definition math_pow :: "real \<Rightarrow> real \<Rightarrow> js_number" where
  "math_pow b e =
     (if e = 0 then Finite 1
      else if b = 0 then (if 0 < e then Finite 0 else PosInf)
      else Finite (b powr e))"

text \<open>
  Each \<^verbatim>\<open>while\<close> loop draws until the draw is not zero; it returns the draw and the
  number of calls of \<^verbatim>\<open>Math.random\<close> made so far, or never returns (\<open>None\<close>).
\<close>

partial_function (option) draw_nonzero :: "(nat \<Rightarrow> real) \<Rightarrow> nat \<Rightarrow> (real \<times> nat) option" where
  "draw_nonzero rnd k = (if rnd k = 0 then draw_nonzero rnd (k + 1) else Some (rnd k, k + 1))"

text \<open>The value of \<open>num\<close> before the test: the Box-Muller draw moved to around one half.\<close>

definition box_muller :: "real \<Rightarrow> real \<Rightarrow> real" where
  "box_muller u v = (let num = sqrt (- 2 * ln u) * cos (2 * pi * v) in num / 10 + 0.5)"

partial_function (option) random_normal ::
    "(nat \<Rightarrow> real) \<Rightarrow> nat \<Rightarrow> js_number \<Rightarrow> js_number \<Rightarrow> real \<Rightarrow> js_number option" where
  "random_normal rnd k mn mx skew =
     Option.bind (draw_nonzero rnd k) (\<lambda>(u, k1).
     Option.bind (draw_nonzero rnd k1) (\<lambda>(v, k2).
       let num = box_muller u v
       in if num > 1 \<or> num < 0 then random_normal rnd k2 mn mx skew
          else Some (js_add (js_mul (math_pow num skew) (js_sub mx mn)) mn)))"

section \<open>Properties\<close>

subsection \<open>Double arithmetic\<close>

text \<open>The exponent brackets the number between two powers of two, and is the only one.\<close>

lemma exponent_bounds:
  assumes "x \<noteq> 0"
  shows "2 powi exponent x \<le> \<bar>x\<bar>" and "\<bar>x\<bar> < 2 powi (exponent x + 1)"
proof -
  have "2 powi exponent x \<le> \<bar>x\<bar> \<and> \<bar>x\<bar> < 2 powi (exponent x + 1)"
  proof (cases "1 \<le> \<bar>x\<bar>")
    case True
    define n where "n = \<lfloor>\<bar>x\<bar>\<rfloor>"
    define b where "b = bitlen n"
    from True have n: "1 \<le> n" by (simp add: n_def le_floor_iff)
    then have "0 < n" by simp
    from bitlen_bounds [OF this]
    have bb: "2 ^ nat (b - 1) \<le> n" "n < 2 ^ nat b" by (simp_all add: b_def)
    have b: "1 \<le> b"
    proof (rule ccontr)
      assume "\<not> 1 \<le> b"
      then have "nat b = 0" by simp
      with bb(2) n show False by simp
    qed
    have e: "exponent x = b - 1" using True by (simp add: exponent_def n_def b_def)
    have "real_of_int (2 ^ nat (b - 1)) \<le> real_of_int n" using bb(1) by linarith
    also have "\<dots> \<le> \<bar>x\<bar>" by (simp add: n_def)
    finally have lo: "2 powi (b - 1) \<le> \<bar>x\<bar>" using b by (simp add: power_int_def)
    have "\<bar>x\<bar> < real_of_int n + 1" by (simp add: n_def)
    also have "\<dots> = real_of_int (n + 1)" by simp
    also have "\<dots> \<le> real_of_int (2 ^ nat b)" using bb(2) by linarith
    finally have hi: "\<bar>x\<bar> < 2 powi b" using b by (simp add: power_int_def)
    from lo hi e show ?thesis by simp
  next
    case False
    define y where "y = 1 / \<bar>x\<bar>"
    define m where "m = \<lceil>y\<rceil> - 1"
    define b where "b = bitlen m"
    from False assms have x: "0 < \<bar>x\<bar>" "\<bar>x\<bar> < 1" by simp_all
    then have y: "1 < y" by (simp add: y_def)
    then have "1 < \<lceil>y\<rceil>" by (simp add: less_ceiling_iff)
    then have m: "1 \<le> m" by (simp add: m_def)
    then have "0 < m" by simp
    from bitlen_bounds [OF this]
    have bb: "2 ^ nat (b - 1) \<le> m" "m < 2 ^ nat b" by (simp_all add: b_def)
    have b: "1 \<le> b"
    proof (rule ccontr)
      assume "\<not> 1 \<le> b"
      then have "nat b = 0" by simp
      with bb(2) m show False by simp
    qed
    have e: "exponent x = - b" using False by (simp add: exponent_def y_def m_def b_def)
    have ypos: "0 < y" using y by simp
    have xy: "\<bar>x\<bar> = inverse y" by (simp add: y_def inverse_eq_divide)
    have "2 powi (- b) = inverse (2 powi b :: real)"
      by (simp only: power_int_minus)
    then have pb: "2 powi (- b) = inverse (2 ^ nat b :: real)"
      using b by (simp add: power_int_def)
    have "- b + 1 = - (b - 1)" by simp
    then have "2 powi (- b + 1) = inverse (2 powi (b - 1) :: real)"
      by (simp only: power_int_minus)
    then have pb1: "2 powi (- b + 1) = inverse (2 ^ nat (b - 1) :: real)"
      using b by (simp add: power_int_def)
    have "y \<le> real_of_int \<lceil>y\<rceil>" by simp
    also have "\<dots> = real_of_int (m + 1)" by (simp add: m_def)
    also have "\<dots> \<le> real_of_int (2 ^ nat b)" using bb(2) by linarith
    finally have "y \<le> 2 ^ nat b" by simp
    then have "inverse (2 ^ nat b) \<le> inverse y"
      using ypos by (rule le_imp_inverse_le)
    then have lo: "2 powi (- b) \<le> \<bar>x\<bar>" by (simp only: xy pb)
    have "real_of_int (2 ^ nat (b - 1)) \<le> real_of_int m" using bb(1) by linarith
    also have "real_of_int m < y" by (simp add: m_def) linarith
    finally have "2 ^ nat (b - 1) < y" by simp
    then have "inverse y < inverse (2 ^ nat (b - 1))"
      by (rule less_imp_inverse_less) simp
    then have hi: "\<bar>x\<bar> < 2 powi (- b + 1)" by (simp only: xy pb1)
    from lo hi e show ?thesis by simp
  qed
  then show "2 powi exponent x \<le> \<bar>x\<bar>" and "\<bar>x\<bar> < 2 powi (exponent x + 1)"
    by simp_all
qed

lemma exponent_eqI:
  assumes "2 powi e \<le> \<bar>x\<bar>" "\<bar>x\<bar> < 2 powi (e + 1)"
  shows "exponent x = e"
proof -
  have "(0::real) < 2 powi e" by simp
  with assms(1) have "0 < \<bar>x\<bar>" by linarith
  then have "x \<noteq> 0" by simp
  note b = exponent_bounds [OF this]
  have "\<not> exponent x < e"
  proof
    assume "exponent x < e"
    then have "(2::real) powi (exponent x + 1) \<le> 2 powi e"
      by (intro power_int_increasing) simp_all
    with assms(1) b(2) show False by linarith
  qed
  moreover have "\<not> e < exponent x"
  proof
    assume "e < exponent x"
    then have "(2::real) powi (e + 1) \<le> 2 powi exponent x"
      by (intro power_int_increasing) simp_all
    with assms(2) b(1) show False by linarith
  qed
  ultimately show ?thesis by simp
qed

lemma round_double_eqI:
  assumes "2 powi e \<le> \<bar>x\<bar>" "\<bar>x\<bar> < 2 powi (e + 1)" "- 1022 \<le> e"
    and "round_half_even (x / 2 powi (e - 52)) = m"
    and "y = of_int m * 2 powi (e - 52)" "\<bar>y\<bar> < 2 powi 1024"
  shows "round_double x = Finite y"
proof -
  have "(0::real) < 2 powi e" by simp
  with assms(1) have "0 < \<bar>x\<bar>" by linarith
  then have "x \<noteq> 0" by simp
  moreover have "max (exponent x) (- 1022) = e"
    using exponent_eqI [OF assms(1,2)] assms(3) by simp
  ultimately show ?thesis
    using assms(4,5,6) by (simp add: round_double_def Let_def)
qed

lemma round_half_even_of_int: "round_half_even (of_int k) = k"
  by (simp add: round_half_even_def)

lemma round_double_of_int:
  assumes "\<bar>n\<bar> < 2 ^ 53"
  shows "round_double (of_int n) = Finite (of_int n)"
proof (cases "n = 0")
  case True
  then show ?thesis by (simp add: round_double_def)
next
  case False
  define x :: real where "x = of_int n"
  define e where "e = exponent x"
  from False have x0: "x \<noteq> 0" by (simp add: x_def)
  note b = exponent_bounds [OF x0, folded e_def]
  from False have "1 \<le> \<bar>n\<bar>" by simp
  then have "(1::real) \<le> of_int \<bar>n\<bar>" by linarith
  then have "1 \<le> \<bar>x\<bar>" by (simp add: x_def)
  have e0: "0 \<le> e"
  proof (rule ccontr)
    assume "\<not> 0 \<le> e"
    then have "e + 1 \<le> 0" by simp
    then have "(2::real) powi (e + 1) \<le> 2 powi 0"
      by (intro power_int_increasing) simp_all
    with b(2) \<open>1 \<le> \<bar>x\<bar>\<close> show False by simp
  qed
  from assms have "real_of_int \<bar>n\<bar> < of_int (2 ^ 53)" by linarith
  then have "\<bar>x\<bar> < 2 ^ 53" by (simp add: x_def)
  have e52: "e \<le> 52"
  proof (rule ccontr)
    assume "\<not> e \<le> 52"
    then have "53 \<le> e" by simp
    then have "(2::real) powi 53 \<le> 2 powi e"
      by (intro power_int_increasing) simp_all
    with b(1) \<open>\<bar>x\<bar> < 2 ^ 53\<close> show False by simp
  qed
  define k where "k = nat (52 - e)"
  have q: "(2::real) powi (e - 52) = 1 / 2 ^ k"
    using e52 by (cases "e = 52") (simp_all add: power_int_def k_def field_simps)
  have "x / 2 powi (e - 52) = of_int (n * 2 ^ k)"
    by (simp add: q x_def)
  then have r: "round_half_even (x / 2 powi (e - 52)) = n * 2 ^ k"
    by (simp only: round_half_even_of_int)
  have y: "x = of_int (n * 2 ^ k) * 2 powi (e - 52)"
    by (simp add: q x_def)
  have "\<bar>x\<bar> < 2 powi 1024"
    using \<open>\<bar>x\<bar> < 2 ^ 53\<close> by simp
  with round_double_eqI [OF b(1) b(2) _ r y] e0 show ?thesis
    by (simp add: x_def)
qed

text \<open>Integers below \<open>2^53\<close> in absolute value are doubles, and so are their sums and
  differences when these stay below \<open>2^53\<close>.\<close>

lemma js_add_int:
  assumes "\<bar>a + b\<bar> < 2 ^ 53"
  shows "js_add (Finite (of_int a)) (Finite (of_int b)) = Finite (of_int (a + b))"
proof -
  have "js_add (Finite (of_int a)) (Finite (of_int b)) = round_double (of_int (a + b))"
    by simp
  with round_double_of_int [OF assms] show ?thesis by (simp only:)
qed

lemma js_sub_int:
  assumes "\<bar>a - b\<bar> < 2 ^ 53"
  shows "js_sub (Finite (of_int a)) (Finite (of_int b)) = Finite (of_int (a - b))"
proof -
  have "js_sub (Finite (of_int a)) (Finite (of_int b)) = round_double (of_int (a - b))"
    by (simp add: js_sub_def)
  with round_double_of_int [OF assms] show ?thesis by (simp only:)
qed

text \<open>The roundings met below.\<close>

lemma round_double_small_ints:
  "round_double 0 = Finite 0" "round_double 1 = Finite 1"
  "round_double 5 = Finite 5" "round_double 55 = Finite 55" "round_double 60 = Finite 60"
  "round_double (- 5) = Finite (- 5)"
  using round_double_of_int [of 0] round_double_of_int [of 1] round_double_of_int [of 5]
    round_double_of_int [of 55] round_double_of_int [of 60] round_double_of_int [of "- 5"]
  by simp_all

lemma round_double_below_one: "round_double (1 - 1 / 2 ^ 52) = Finite (1 - 1 / 2 ^ 52)"
  by (rule round_double_eqI [where e = "- 1" and m = "2 ^ 53 - 2"])
    (simp_all add: round_half_even_def)

lemma round_double_near_101: "round_double (1 - 1 / 2 ^ 52 + 100) = Finite 101"
  by (rule round_double_eqI [where e = 6 and m = "101 * 2 ^ 46"])
    (simp_all add: round_half_even_def)

lemma round_double_1e17: "round_double 99999999999999999 = Finite 100000000000000000"
  by (rule round_double_eqI [where e = 56 and m = 6250000000000000])
    (simp_all add: round_half_even_def)

lemma round_double_1e16:
  "round_double 10000000000000001 = Finite 10000000000000000"
  "round_double 10000000000000000 = Finite 10000000000000000"
  by (rule round_double_eqI [where e = 53 and m = 5000000000000000];
      simp add: round_half_even_def)+

subsection \<open>Grid coordinates\<close>

text \<open>
  C6. \<open>xy_from_index\<close> followed by \<open>index_from_xy\<close> gives the index back: for a
  positive width \<open>w\<close> and an index \<open>0 \<le> i < w * h\<close>, and in particular for width 12
  and every index below 48.
\<close>

theorem xy_index_round_trip:
  "(0 < w \<and> 0 \<le> i \<and> i < w * h \<longrightarrow>
      index_from_xy (px (xy_from_index i w)) (py (xy_from_index i w)) w = i) \<and>
   (\<forall>j \<in> {0..<48}.
      index_from_xy (px (xy_from_index j 12)) (py (xy_from_index j 12)) 12 = j)"
proof -
  have rt: "index_from_xy (px (xy_from_index k v)) (py (xy_from_index k v)) v = k"
    if "0 < v" "0 \<le> k" for k v :: int
  proof -
    from that have "k smod v = k mod v"
      by (simp add: signed_modulo_int_def sgn_if)
    then show ?thesis
      by (simp add: index_from_xy_def xy_from_index_def Let_def)
  qed
  show ?thesis
    by (auto intro: rt)
qed

theorem xy_index_round_trip_witness:
  "(0::int) < 12 \<and> (0::int) \<le> 47 \<and> (47::int) < 12 * 4 \<and>
   index_from_xy (px (xy_from_index 47 12)) (py (xy_from_index 47 12)) 12 = 47 \<and>
   (5::int) \<in> {0..<48} \<and>
   index_from_xy (px (xy_from_index 5 12)) (py (xy_from_index 5 12)) 12 = 5"
  using xy_index_round_trip [of 12 47 4] by simp

subsection \<open>Polynomial easing\<close>

text \<open>
  C1, as stated, fails at degree 0: \<open>x ** 0\<close> is \<open>1\<close> for every \<open>x\<close>, so the ease-in
  curve starts at 1 and the ease-out curve ends at 0.
\<close>

theorem poly_ease_degree_zero_counterexample:
  "poly_ease_in 0 0 = 1 \<and> poly_ease_out 1 0 = 0"
  by (simp add: poly_ease_in_def poly_ease_out_def)

text \<open>
  C1, amended. In the last revision \<open>poly_ease_in 1 n = 1\<close> and \<open>poly_ease_out 0 n = 0\<close>
  for every degree, \<open>poly_ease_in 0 n = 0\<close> and \<open>poly_ease_out 1 n = 1\<close> for every
  degree \<open>n \<ge> 1\<close>, and the three values of the specification hold:
  \<open>poly_ease_in(0,2) = 0\<close>, \<open>poly_ease_in(1,2) = 1\<close>, \<open>poly_ease_out(0.5,2) = 0.75\<close>.
\<close>

theorem poly_ease_boundary:
  "poly_ease_in 1 n = 1 \<and> poly_ease_out 0 n = 0 \<and>
   (0 < n \<longrightarrow> poly_ease_in 0 n = 0 \<and> poly_ease_out 1 n = 1) \<and>
   poly_ease_in 0 2 = 0 \<and> poly_ease_in 1 2 = 1 \<and> poly_ease_out (1 / 2) 2 = 3 / 4"
  by (simp add: poly_ease_in_def poly_ease_out_def power2_eq_square)

theorem poly_ease_boundary_witness:
  "(0::nat) < 3 \<and> poly_ease_in 0 3 = 0 \<and> poly_ease_out 1 3 = 1 \<and>
   poly_ease_in 1 3 = 1 \<and> poly_ease_out 0 3 = 0"
  using poly_ease_boundary [of 3] by simp

text \<open>
  The second revision scales the ease-in curve by \<open>2 ^ (n - 1)\<close> and halves the power in
  the ease-out curve, so neither meets the boundary values at degree 2.
\<close>

lemma poly_ease_rev2_values:
  "poly_ease_in_rev2 1 2 = 2 \<and> poly_ease_out_rev2 0 2 = - 1 \<and>
   poly_ease_out_rev2 (1 / 2) 2 = 1 / 2"
  by (simp add: poly_ease_in_rev2_def poly_ease_out_rev2_def power2_eq_square)

subsection \<open>Uniform random numbers\<close>

text \<open>On the argument patterns that return a number, the two revisions agree.\<close>

lemma random_utils_random:
  "random_utils r None None = Some (random r None None)"
  "random_utils r (Some a) None = Some (random r (Some a) None)"
  "random_utils r (Some a) (Some b) = Some (random r (Some a) (Some b))"
  by (simp_all add: random_utils.simps [of r] random_def to_number_def)

text \<open>Without arguments the result is the draw itself.\<close>

lemma random_no_arguments:
  assumes "is_double r"
  shows "random r None None = Finite r"
  using assms
  by (simp add: random_def to_number_def js_sub_def round_double_small_ints is_double_def)

text \<open>
  C8 fails on the code. The draw \<open>1 - 2^-52\<close> is a double of \<open>[0,1)\<close>; with it
  \<open>random(100, 101)\<close> computes \<open>(1 - 2^-52) * 1 + 100\<close>, which rounds to \<open>101\<close>, the
  bound that the documentation of \<open>random\<close> excludes; in the last revision and in
  \<^verbatim>\<open>src/utils.js\<close>.
\<close>

theorem random_reaches_upper_bound:
  "is_double (1 - 1 / 2 ^ 52) \<and> (0::real) \<le> 1 - 1 / 2 ^ 52 \<and> (1 - 1 / 2 ^ 52 :: real) < 1 \<and>
   random (1 - 1 / 2 ^ 52) (Some (Finite 100)) (Some (Finite 101)) = Finite 101 \<and>
   random_utils (1 - 1 / 2 ^ 52) (Some (Finite 100)) (Some (Finite 101)) = Some (Finite 101)"
proof -
  define r :: real where "r = 1 - 1 / 2 ^ 52"
  have d: "round_double r = Finite r"
    unfolding r_def by (rule round_double_below_one)
  have s: "round_double (r + 100) = Finite 101"
    unfolding r_def by (rule round_double_near_101)
  have "random r (Some (Finite 100)) (Some (Finite 101)) = Finite 101"
    by (simp add: random_def to_number_def js_sub_def round_double_small_ints d s)
  moreover have "(0::real) \<le> r \<and> r < 1" by (simp add: r_def)
  ultimately show ?thesis
    using d by (simp add: random_utils_random is_double_def r_def)
qed

subsection \<open>Wrapping\<close>

text \<open>
  At \<open>wrap(1e17, 0, 1)\<close> the subtraction \<open>1e17 - 1\<close> rounds to \<open>1e17\<close>: the first loop
  repeats its own state, so no number is its result.
\<close>

lemma wrap_down_stuck:
  assumes "wrap_down v mn mx = Some res"
  shows "\<not> (v = Finite 100000000000000000 \<and> mn = Finite 0 \<and> mx = Finite 1)"
proof (rule wrap_down.raw_induct
    [where P = "\<lambda>v mn mx res. \<not> (v = Finite 100000000000000000 \<and> mn = Finite 0 \<and> mx = Finite 1)",
     OF _ assms])
  fix wd v mn mx res
  assume IH: "\<And>v mn mx res. wd v mn mx = Some res \<Longrightarrow>
      \<not> (v = Finite 100000000000000000 \<and> mn = Finite 0 \<and> mx = Finite 1)"
    and body: "(if js_less mx v then wd (js_sub v (js_sub mx mn)) mn mx else Some v) = Some res"
  show "\<not> (v = Finite 100000000000000000 \<and> mn = Finite 0 \<and> mx = Finite 1)"
  proof
    assume a: "v = Finite 100000000000000000 \<and> mn = Finite 0 \<and> mx = Finite 1"
    have "js_sub (Finite 100000000000000000) (js_sub (Finite 1) (Finite 0)) =
        Finite 100000000000000000"
      by (simp add: js_sub_def round_double_small_ints round_double_1e17)
    with body a have "wd v mn mx = Some res" by simp
    from IH [OF this] a show False by simp
  qed
qed

text \<open>
  C5 fails on the code: \<open>1e17\<close> is finite and \<open>0 < 1\<close>, and \<open>wrap(1e17, 0, 1)\<close> never
  returns.
\<close>

theorem wrap_never_returns:
  "wrap (Finite 100000000000000000) (Finite 0) (Finite 1) = None"
proof -
  have "wrap_down (Finite 100000000000000000) (Finite 0) (Finite 1) = None"
    using wrap_down_stuck [of "Finite 100000000000000000" "Finite 0" "Finite 1"]
    by (cases "wrap_down (Finite 100000000000000000) (Finite 0) (Finite 1)") auto
  then show ?thesis by (simp add: wrap_def)
qed

text \<open>The two values of the specification: \<open>wrap(65,0,60) = 5\<close>, \<open>wrap(-5,0,60) = 55\<close>.\<close>

lemma wrap_examples:
  "wrap (Finite 65) (Finite 0) (Finite 60) = Some (Finite 5)"
  "wrap (Finite (- 5)) (Finite 0) (Finite 60) = Some (Finite 55)"
  by (simp_all add: wrap_def wrap_down.simps wrap_up.simps js_sub_def round_double_small_ints)

text \<open>
  On integers below \<open>2^52\<close> in absolute value no step rounds: for \<open>min_val < max_val\<close>
  both loops end, and the result lies in \<open>[min_val, max_val]\<close>, an integer multiple of
  the width away from the value.
\<close>

lemma wrap_down_integers:
  assumes w: "mn < mx" and mn: "\<bar>mn\<bar> < 2 ^ 52" and mx: "\<bar>mx\<bar> < 2 ^ 52"
  shows "\<bar>v\<bar> < 2 ^ 52 \<Longrightarrow> nat (v - mx) = n \<Longrightarrow>
    \<exists>k::nat. wrap_down (Finite (of_int v)) (Finite (of_int mn)) (Finite (of_int mx)) =
          Some (Finite (of_int (v - int k * (mx - mn)))) \<and>
       v - int k * (mx - mn) \<le> mx \<and> (k = 0 \<or> mn < v - int k * (mx - mn))"
proof (induction n arbitrary: v rule: less_induct)
  case (less n)
  show ?case
  proof (cases "mx < v")
    case False
    then have "wrap_down (Finite (of_int v)) (Finite (of_int mn)) (Finite (of_int mx)) =
        Some (Finite (of_int v))"
      by (subst wrap_down.simps) simp
    with False show ?thesis by (intro exI [of _ 0]) simp
  next
    case True
    let ?w = "mx - mn"
    let ?v = "v - ?w"
    from mn mx w have "\<bar>?w\<bar> < 2 ^ 53" by simp
    then have width: "js_sub (Finite (of_int mx)) (Finite (of_int mn)) = Finite (of_int ?w)"
      by (rule js_sub_int)
    from True w less.prems(1) mn have v': "\<bar>?v\<bar> < 2 ^ 52" by simp
    then have "\<bar>v - ?w\<bar> < 2 ^ 53" by simp
    then have "js_sub (Finite (of_int v)) (Finite (of_int ?w)) = Finite (of_int ?v)"
      by (rule js_sub_int)
    with True width
    have step: "wrap_down (Finite (of_int v)) (Finite (of_int mn)) (Finite (of_int mx)) =
        wrap_down (Finite (of_int ?v)) (Finite (of_int mn)) (Finite (of_int mx))"
      by (subst wrap_down.simps) simp
    from True w less.prems(2) have "nat (?v - mx) < n" by linarith
    from less.IH [OF this v' refl] obtain k :: nat where
      k: "wrap_down (Finite (of_int ?v)) (Finite (of_int mn)) (Finite (of_int mx)) =
            Some (Finite (of_int (?v - int k * ?w)))"
         "?v - int k * ?w \<le> mx" "k = 0 \<or> mn < ?v - int k * ?w"
      by blast
    have eq: "?v - int k * ?w = v - int (Suc k) * ?w"
      by (simp add: algebra_simps)
    have lo: "mn < v - int (Suc k) * ?w"
    proof (cases "k = 0")
      case True
      with \<open>mx < v\<close> show ?thesis by simp
    next
      case False
      with k(3) show ?thesis by (simp only: eq) simp
    qed
    from step k(1) have "wrap_down (Finite (of_int v)) (Finite (of_int mn)) (Finite (of_int mx)) =
        Some (Finite (of_int (v - int (Suc k) * ?w)))"
      by (simp only: eq)
    moreover from k(2) have "v - int (Suc k) * ?w \<le> mx" by (simp only: eq)
    ultimately show ?thesis using lo by (intro exI [of _ "Suc k"]) simp
  qed
qed

lemma wrap_up_integers:
  assumes w: "mn < mx" and mn: "\<bar>mn\<bar> < 2 ^ 52" and mx: "\<bar>mx\<bar> < 2 ^ 52"
  shows "\<bar>v\<bar> < 2 ^ 52 \<Longrightarrow> nat (mn - v) = n \<Longrightarrow>
    \<exists>k::nat. wrap_up (Finite (of_int v)) (Finite (of_int mn)) (Finite (of_int mx)) =
          Some (Finite (of_int (v + int k * (mx - mn)))) \<and>
       mn \<le> v + int k * (mx - mn) \<and> (k = 0 \<or> v + int k * (mx - mn) < mx)"
proof (induction n arbitrary: v rule: less_induct)
  case (less n)
  show ?case
  proof (cases "v < mn")
    case False
    then have "wrap_up (Finite (of_int v)) (Finite (of_int mn)) (Finite (of_int mx)) =
        Some (Finite (of_int v))"
      by (subst wrap_up.simps) simp
    with False show ?thesis by (intro exI [of _ 0]) simp
  next
    case True
    let ?w = "mx - mn"
    let ?v = "v + ?w"
    from mn mx w have "\<bar>?w\<bar> < 2 ^ 53" by simp
    then have width: "js_sub (Finite (of_int mx)) (Finite (of_int mn)) = Finite (of_int ?w)"
      by (rule js_sub_int)
    from True w less.prems(1) mx have v': "\<bar>?v\<bar> < 2 ^ 52" by simp
    then have "\<bar>v + ?w\<bar> < 2 ^ 53" by simp
    then have "js_add (Finite (of_int v)) (Finite (of_int ?w)) = Finite (of_int ?v)"
      by (rule js_add_int)
    with True width
    have step: "wrap_up (Finite (of_int v)) (Finite (of_int mn)) (Finite (of_int mx)) =
        wrap_up (Finite (of_int ?v)) (Finite (of_int mn)) (Finite (of_int mx))"
      by (subst wrap_up.simps) simp
    from True w less.prems(2) have "nat (mn - ?v) < n" by linarith
    from less.IH [OF this v' refl] obtain k :: nat where
      k: "wrap_up (Finite (of_int ?v)) (Finite (of_int mn)) (Finite (of_int mx)) =
            Some (Finite (of_int (?v + int k * ?w)))"
         "mn \<le> ?v + int k * ?w" "k = 0 \<or> ?v + int k * ?w < mx"
      by blast
    have eq: "?v + int k * ?w = v + int (Suc k) * ?w"
      by (simp add: algebra_simps)
    have hi: "v + int (Suc k) * ?w < mx"
    proof (cases "k = 0")
      case True
      with \<open>v < mn\<close> show ?thesis by simp
    next
      case False
      with k(3) show ?thesis by (simp only: eq) simp
    qed
    from step k(1) have "wrap_up (Finite (of_int v)) (Finite (of_int mn)) (Finite (of_int mx)) =
        Some (Finite (of_int (v + int (Suc k) * ?w)))"
      by (simp only: eq)
    moreover from k(2) have "mn \<le> v + int (Suc k) * ?w" by (simp only: eq)
    ultimately show ?thesis using hi by (intro exI [of _ "Suc k"]) simp
  qed
qed

lemma wrap_integers:
  assumes w: "mn < mx" and mn: "\<bar>mn\<bar> < 2 ^ 52" and mx: "\<bar>mx\<bar> < 2 ^ 52"
    and v: "\<bar>v\<bar> < 2 ^ 52"
  shows "\<exists>res. wrap (Finite (of_int v)) (Finite (of_int mn)) (Finite (of_int mx)) =
            Some (Finite (of_int res)) \<and>
          mn \<le> res \<and> res \<le> mx \<and> (\<exists>k::int. res = v + k * (mx - mn))"
proof -
  let ?w = "mx - mn"
  from wrap_down_integers [OF w mn mx v refl] obtain k1 :: nat where
    d: "wrap_down (Finite (of_int v)) (Finite (of_int mn)) (Finite (of_int mx)) =
          Some (Finite (of_int (v - int k1 * ?w)))"
       "v - int k1 * ?w \<le> mx" "k1 = 0 \<or> mn < v - int k1 * ?w"
    by blast
  let ?d = "v - int k1 * ?w"
  have db: "\<bar>?d\<bar> < 2 ^ 52"
  proof (cases "k1 = 0")
    case True
    with v show ?thesis by simp
  next
    case False
    with d(2,3) mn mx show ?thesis by simp
  qed
  from wrap_up_integers [OF w mn mx db refl] obtain k2 :: nat where
    u: "wrap_up (Finite (of_int ?d)) (Finite (of_int mn)) (Finite (of_int mx)) =
          Some (Finite (of_int (?d + int k2 * ?w)))"
       "mn \<le> ?d + int k2 * ?w" "k2 = 0 \<or> ?d + int k2 * ?w < mx"
    by blast
  let ?res = "?d + int k2 * ?w"
  have "wrap (Finite (of_int v)) (Finite (of_int mn)) (Finite (of_int mx)) =
      Some (Finite (of_int ?res))"
    using d(1) u(1) by (simp add: wrap_def)
  moreover have "?res \<le> mx"
    using d(2) u(3) by (cases "k2 = 0") auto
  moreover have "?res = v + (int k2 - int k1) * ?w"
    by (simp add: algebra_simps)
  ultimately show ?thesis using u(2) by blast
qed

subsection \<open>Random choices\<close>

text \<open>A draw in \<open>[0,1)\<close> scaled by a positive count and floored is an index below it.\<close>

lemma floor_draw_bounds:
  assumes "0 \<le> r" "r < 1" "0 < n"
  shows "0 \<le> \<lfloor>r * real_of_int n\<rfloor> \<and> \<lfloor>r * real_of_int n\<rfloor> < n"
proof -
  from assms have "0 \<le> r * real_of_int n" by simp
  then have lo: "0 \<le> \<lfloor>r * real_of_int n\<rfloor>" by simp
  from assms have "r * real_of_int n < 1 * real_of_int n"
    by (intro mult_strict_right_mono) simp_all
  then have "\<lfloor>r * real_of_int n\<rfloor> < n" by (simp add: floor_less_iff)
  with lo show ?thesis by simp
qed

lemma shuffle_loop_mset:
  "(\<forall>k. 0 \<le> rnd k \<and> rnd k < 1) \<Longrightarrow> i < int (length arr) \<Longrightarrow>
   mset (shuffle_loop rnd k i arr) = mset arr"
proof (induction rnd k i arr rule: shuffle_loop.induct)
  case (1 rnd k i arr)
  show ?case
  proof (cases "0 < i")
    case False
    then show ?thesis by (simp add: shuffle_loop.simps [of rnd k i])
  next
    case True
    define j where "j = \<lfloor>rnd k * real_of_int (i + 1)\<rfloor>"
    define arr' where "arr' = arr[nat i := arr ! nat j, nat j := arr ! nat i]"
    have step: "shuffle_loop rnd k i arr = shuffle_loop rnd (k + 1) (i - 1) arr'"
      using True by (simp add: shuffle_loop.simps [of rnd k i] j_def arr'_def Let_def)
    from "1.prems"(1) have "0 \<le> rnd k" "rnd k < 1" by simp_all
    from floor_draw_bounds [OF this, of "i + 1"] True
    have j: "0 \<le> j" "j \<le> i" by (simp_all add: j_def)
    with "1.prems"(2) have idx: "nat i < length arr" "nat j < length arr" by linarith+
    then have swap: "mset arr' = mset arr"
      unfolding arr'_def by (simp add: mset_swap)
    have len: "i - 1 < int (length arr')"
      using "1.prems"(2) by (simp add: arr'_def)
    have "mset (shuffle_loop rnd (k + 1) (i - 1) arr') = mset arr'"
      using "1.IH" [OF True j_def "1.prems"(1)] len by (simp add: arr'_def)
    with step swap show ?thesis by simp
  qed
qed

text \<open>
  For draws in \<open>[0,1)\<close>, the array after \<open>shuffle_array\<close> of \<^verbatim>\<open>src/utils.js\<close> holds the
  elements it held before, each as often: every step swaps two elements of the array.
\<close>

lemma shuffle_array_utils_mset:
  assumes "\<forall>k. 0 \<le> rnd k \<and> rnd k < 1"
  shows "\<exists>arr'. shuffle_array_utils rnd arr = Inr arr' \<and> mset arr' = mset arr"
proof -
  have "mset (shuffle_loop rnd 0 (int (length arr) - 1) arr) = mset arr"
    using assms by (rule shuffle_loop_mset) simp
  then show ?thesis by (simp add: shuffle_array_utils_def)
qed

lemma shuffle_example:
  "shuffle_array_utils (\<lambda>k. 1 / 2) [1, 2, 3 :: int] = Inr [1, 3, 2]"
  by (simp add: shuffle_array_utils_def shuffle_loop.simps)

text \<open>
  C2 fails on the last revision: \<open>shuffle_array\<close> sorts a copy of the array and drops
  it. The argument is never written, whatever the draws: with the draws \<open>3/4, 1/2, 1/4\<close>
  the copy of \<open>[1, 2, 3]\<close> is sorted to \<open>[3, 2, 1]\<close> and the array is still
  \<open>[1, 2, 3]\<close>.
\<close>

theorem shuffle_array_leaves_argument:
  "shuffle_array rnd arr = Inr arr \<and>
   sort_by_random_order (\<lambda>k. 3 / 4 - real k / 4) [1, 2, 3 :: int] = [3, 2, 1] \<and>
   shuffle_array (\<lambda>k. 3 / 4 - real k / 4) [1, 2, 3 :: int] = Inr [1, 2, 3]"
proof -
  have "[0..<3] = [0, 1, 2]" by (simp add: upt_rec)
  then show ?thesis
    by (simp add: shuffle_array_def sort_by_random_order_def)
qed

text \<open>
  In the last revision, position \<open>k\<close> of an array of \<open>n\<close> elements is selected by the
  draws of the interval \<open>[k/n, (k+1)/n)\<close>, of width \<open>1/n\<close>.
\<close>

lemma floor_scaled_eq_iff:
  assumes "0 < n"
  shows "\<lfloor>r * real n\<rfloor> = int k \<longleftrightarrow> real k / real n \<le> r \<and> r < real (Suc k) / real n"
proof -
  from assms have n: "0 < real n" by simp
  have "\<lfloor>r * real n\<rfloor> = int k \<longleftrightarrow> real k \<le> r * real n \<and> r * real n < real k + 1"
    by (simp add: floor_eq_iff)
  also have "\<dots> \<longleftrightarrow> real k / real n \<le> r \<and> r < (real k + 1) / real n"
    using n by (simp add: pos_divide_le_eq pos_less_divide_eq)
  finally show ?thesis by (simp add: add.commute)
qed

lemma random_from_array_draws:
  assumes "k < length a"
  shows "{r. 0 \<le> r \<and> r < 1 \<and> random_from_array r a = Inr (js_index a (int k))} \<supseteq>
           {real k / real (length a) ..< real (Suc k) / real (length a)}"
    and "{r. 0 \<le> r \<and> r < 1 \<and> \<lfloor>r * real (length a)\<rfloor> = int k} =
           {real k / real (length a) ..< real (Suc k) / real (length a)}"
    and "js_index a (int k) = Some (a ! k)"
proof -
  let ?n = "length a"
  from assms have n: "0 < ?n" by (cases a) simp_all
  have in01: "0 \<le> r \<and> r < 1" if "real k / real ?n \<le> r" "r < real (Suc k) / real ?n" for r
  proof -
    have "0 \<le> real k / real ?n" by simp
    with that(1) have lo: "0 \<le> r" by linarith
    from assms n have "real (Suc k) / real ?n \<le> 1" by (simp add: divide_le_eq_1)
    with that(2) have "r < 1" by linarith
    with lo show ?thesis by simp
  qed
  show eq: "{r. 0 \<le> r \<and> r < 1 \<and> \<lfloor>r * real ?n\<rfloor> = int k} =
           {real k / real ?n ..< real (Suc k) / real ?n}"
    using in01 by (auto simp: floor_scaled_eq_iff [OF n])
  show "{r. 0 \<le> r \<and> r < 1 \<and> random_from_array r a = Inr (js_index a (int k))} \<supseteq>
           {real k / real ?n ..< real (Suc k) / real ?n}"
    unfolding eq [symmetric] by (auto simp: random_from_array_def)
  show "js_index a (int k) = Some (a ! k)"
    using assms by (simp add: js_index_def)
qed

lemma random_from_array_reaches:
  assumes "k < length a"
  shows "\<exists>r. 0 \<le> r \<and> r < 1 \<and> random_from_array r a = Inr (Some (a ! k))"
proof -
  let ?r = "real k / real (length a)"
  from assms have "0 < real (length a)" by (cases a) simp_all
  then have "?r < real (Suc k) / real (length a)"
    by (intro divide_strict_right_mono) simp_all
  then have "?r \<in> {?r ..< real (Suc k) / real (length a)}" by simp
  with random_from_array_draws [OF assms] show ?thesis by auto
qed

text \<open>
  In \<^verbatim>\<open>src/utils.js\<close> the bound handed to \<open>random_int\<close> is \<open>arr.length - 1\<close>, and the
  bound is exclusive: the last position of an array of two or more elements is never
  selected.
\<close>

lemma random_int_utils_one:
  "random_int_utils r (Some n) None = Some \<lfloor>r * real_of_int n\<rfloor>"
  by (simp add: random_int_utils.simps [of r])

lemma random_from_array_utils_index:
  assumes "0 \<le> r" "r < 1" "2 \<le> length arr"
  shows "\<exists>k < length arr - 1. random_from_array_utils r arr = Inr (Some (arr ! k))"
proof -
  let ?i = "\<lfloor>r * real_of_int (int (length arr) - 1)\<rfloor>"
  from assms(3) have "0 < int (length arr) - 1" by simp
  from floor_draw_bounds [OF assms(1,2) this]
  have i: "0 \<le> ?i" "?i < int (length arr) - 1" by simp_all
  then have "js_index arr ?i = Some (arr ! nat ?i)" by (simp add: js_index_def)
  then have "random_from_array_utils r arr = Inr (Some (arr ! nat ?i))"
    by (simp add: random_from_array_utils_def random_int_utils_one)
  moreover from i have "nat ?i < length arr - 1" by linarith
  ultimately show ?thesis by blast
qed

text \<open>
  C3 fails in \<^verbatim>\<open>src/utils.js\<close>: on an array of two elements every draw of \<open>[0,1)\<close>
  selects the first one.
\<close>

theorem random_from_array_utils_first_of_two:
  "0 \<le> r \<and> r < 1 \<longrightarrow> random_from_array_utils r [x, y] = Inr (Some x)"
proof
  assume r: "0 \<le> r \<and> r < 1"
  then have "\<lfloor>r\<rfloor> = 0" by (simp add: floor_eq_iff)
  then show "random_from_array_utils r [x, y] = Inr (Some x)"
    by (simp add: random_from_array_utils_def random_int_utils_one js_index_def)
qed

theorem random_from_array_utils_first_of_two_witness:
  "(0::real) \<le> 9 / 10 \<and> (9 / 10 :: real) < 1 \<and>
   random_from_array_utils (9 / 10) [''a'', ''b''] = Inr (Some ''a'') \<and>
   random_from_array (9 / 10) [''a'', ''b''] = Inr (Some ''b'')"
  using random_from_array_utils_first_of_two [of "9 / 10" "''a''" "''b''"]
  by (simp add: random_from_array_def js_index_def)

subsection \<open>Empty input\<close>

text \<open>
  C4, as stated, fails: on the empty array \<open>random_from_array\<close> returns \<open>undefined\<close>,
  and the shuffle functions return with the empty array or string; nothing is raised.
\<close>

theorem empty_input_counterexample:
  "random_from_array (1 / 2) ([] :: int list) = Inr None \<and>
   shuffle_array_utils (\<lambda>k. 1 / 2) ([] :: int list) = Inr [] \<and>
   shuffle_string (\<lambda>k. 1 / 2) [] = Inr []"
  by (simp add: random_from_array_def js_index_def shuffle_array_utils_def
      shuffle_loop.simps shuffle_string_def sort_by_random_order_def)

text \<open>
  C4, amended. On empty input no function raises an error: for every draw
  \<open>random_from_array\<close> returns \<open>undefined\<close> (in both revisions), \<open>shuffle_array\<close> leaves
  the empty array empty (in both revisions) and \<open>shuffle_string\<close> returns the empty
  string.
\<close>

theorem empty_input_returns:
  "random_from_array r ([] :: 'a list) = Inr None \<and>
   random_from_array_utils r ([] :: 'a list) = Inr None \<and>
   shuffle_array rnd ([] :: 'a list) = Inr [] \<and>
   shuffle_array_utils rnd ([] :: 'a list) = Inr [] \<and>
   shuffle_string rnd [] = Inr []"
  by (simp add: random_from_array_def random_from_array_utils_def random_int_utils_one
      js_index_def shuffle_array_def shuffle_array_utils_def shuffle_loop.simps
      shuffle_string_def sort_by_random_order_def)

subsection \<open>Random strings\<close>

lemma length_characters: "length characters = 62"
  by (simp add: characters_def)

lemma random_from_array_characters:
  assumes "0 \<le> r" "r < 1"
  shows "\<exists>c \<in> set characters. random_from_array r characters = Inr (Some c)"
proof -
  let ?i = "\<lfloor>r * real (length characters)\<rfloor>"
  from floor_draw_bounds [OF assms, of 62]
  have i: "0 \<le> ?i" "?i < 62" by (simp_all add: length_characters)
  then have "nat ?i < 62" by linarith
  then have "nat ?i < length characters" by (simp only: length_characters)
  then have "characters ! nat ?i \<in> set characters" by (rule nth_mem)
  moreover from i have "random_from_array r characters = Inr (Some (characters ! nat ?i))"
    by (simp add: random_from_array_def js_index_def length_characters)
  ultimately show ?thesis by blast
qed

lemma random_string_loop_result:
  "(\<forall>k. 0 \<le> rnd k \<and> rnd k < 1) \<Longrightarrow> i \<le> len \<Longrightarrow>
   \<exists>s. random_string_loop rnd i len result = Inr (result @ s) \<and>
       length s = len - i \<and> set s \<subseteq> set characters"
proof (induction rnd i len result rule: random_string_loop.induct)
  case (1 rnd i len result)
  show ?case
  proof (cases "i < len")
    case False
    then have "random_string_loop rnd i len result = Inr result"
      by (subst random_string_loop.simps) simp
    moreover from False "1.prems"(2) have "len - i = 0" by simp
    ultimately show ?thesis by simp
  next
    case True
    from "1.prems"(1) have "0 \<le> rnd i" "rnd i < 1" by simp_all
    from random_from_array_characters [OF this] obtain c where
      c: "c \<in> set characters" "random_from_array (rnd i) characters = Inr (Some c)"
      by blast
    have step: "random_string_loop rnd i len result =
        random_string_loop rnd (i + 1) len (result @ [c])"
      using True c(2) by (simp add: random_string_loop.simps [of rnd i])
    from True have "i + 1 \<le> len" by simp
    from "1.IH"(2) [OF True c(2) refl "1.prems"(1) this] obtain s where
      s: "random_string_loop rnd (i + 1) len (result @ [c]) = Inr ((result @ [c]) @ s)"
         "length s = len - (i + 1)" "set s \<subseteq> set characters"
      by blast
    from step s(1) have "random_string_loop rnd i len result = Inr (result @ (c # s))"
      by simp
    moreover from s(2) True have "length (c # s) = len - i" by simp
    moreover from s(3) c(1) have "set (c # s) \<subseteq> set characters" by simp
    ultimately show ?thesis by blast
  qed
qed

text \<open>
  C10. For every length \<open>len\<close> and all draws in \<open>[0,1)\<close>, \<open>random_string\<close> returns a
  string of exactly \<open>len\<close> characters, each one of the 62 characters
  \<open>A-Z\<close>, \<open>a-z\<close>, \<open>0-9\<close>.
\<close>

theorem random_string_alphabet:
  "(\<forall>k. 0 \<le> rnd k \<and> rnd k < 1) \<longrightarrow>
     (\<exists>s. random_string rnd len = Inr s \<and> length s = len \<and>
        set s \<subseteq> set ''ABCDEFGHIJKLMNOPQRSTUVWXYZabcdefghijklmnopqrstuvwxyz0123456789'')"
proof
  assume "\<forall>k. 0 \<le> rnd k \<and> rnd k < 1"
  from random_string_loop_result [OF this, of 0 len "[]"]
  show "\<exists>s. random_string rnd len = Inr s \<and> length s = len \<and>
        set s \<subseteq> set ''ABCDEFGHIJKLMNOPQRSTUVWXYZabcdefghijklmnopqrstuvwxyz0123456789''"
    by (simp add: random_string_def characters_def)
qed

theorem random_string_alphabet_witness:
  "(\<forall>k::nat. (0::real) \<le> 1 / 2 \<and> (1 / 2 :: real) < 1) \<and>
   random_string (\<lambda>k. 1 / 2) 3 = Inr ''fff''"
  using random_string_alphabet [of "\<lambda>k. 1 / 2" 3]
  by (simp add: random_string_def random_string_loop.simps random_from_array_def
      js_index_def characters_def)

subsection \<open>Hexadecimal conversion\<close>

lemma hex_value_upper_digit:
  assumes "d < 16"
  shows "hex_value (to_upper_char (hex_digit d)) = Some d"
proof -
  from assms have "d = 0 \<or> d = 1 \<or> d = 2 \<or> d = 3 \<or> d = 4 \<or> d = 5 \<or> d = 6 \<or> d = 7 \<or>
      d = 8 \<or> d = 9 \<or> d = 10 \<or> d = 11 \<or> d = 12 \<or> d = 13 \<or> d = 14 \<or> d = 15"
    by presburger
  then show ?thesis
    by (elim disjE) (simp_all add: hex_digit_def to_upper_char_def hex_value_def)
qed

lemma hex_value_specials:
  "hex_value CHR ''0'' = Some 0" "to_upper_char CHR ''0'' = CHR ''0''"
  "hex_value CHR ''-'' = None" "hex_value CHR ''+'' = None"
  "hex_value CHR ''x'' = None" "hex_value CHR ''X'' = None"
  "\<not> is_white_space CHR ''0''"
  by (simp_all add: hex_value_def to_upper_char_def is_white_space_def)

lemma white_space_no_digit: "is_white_space c \<Longrightarrow> hex_value c = None"
  by (auto simp: is_white_space_def hex_value_def)

lemma digits16_nonempty: "digits16 n \<noteq> []"
  by (subst digits16.simps) simp

lemma digits16_hex_chars:
  "c \<in> set (map to_upper_char (digits16 n)) \<Longrightarrow> hex_value c \<noteq> None"
proof (induction n rule: digits16.induct)
  case (1 n)
  show ?case
  proof (cases "n < 16")
    case True
    with "1.prems" show ?thesis
      by (subst (asm) digits16.simps) (simp add: hex_value_upper_digit)
  next
    case False
    have "n mod 16 < 16" by simp
    then have m: "hex_value (to_upper_char (hex_digit (n mod 16))) \<noteq> None"
      by (simp add: hex_value_upper_digit)
    from "1.prems" False
    have "c \<in> set (map to_upper_char (digits16 (n div 16))) \<or>
          c = to_upper_char (hex_digit (n mod 16))"
      by (subst (asm) digits16.simps) auto
    with "1.IH" [OF False] m show ?thesis by auto
  qed
qed

lemma digits16_value:
  "foldl (\<lambda>acc c. 16 * acc + the (hex_value c)) acc (map to_upper_char (digits16 n)) =
     acc * 16 ^ length (digits16 n) + n"
proof (induction n arbitrary: acc rule: digits16.induct)
  case (1 n)
  show ?case
  proof (cases "n < 16")
    case True
    then have "digits16 n = [hex_digit n]" by (subst digits16.simps) simp
    with True show ?thesis by (simp add: hex_value_upper_digit)
  next
    case False
    then have d: "digits16 n = digits16 (n div 16) @ [hex_digit (n mod 16)]"
      by (subst digits16.simps) simp
    have "n mod 16 < 16" by simp
    then have m: "hex_value (to_upper_char (hex_digit (n mod 16))) = Some (n mod 16)"
      by (rule hex_value_upper_digit)
    let ?step = "\<lambda>acc c. 16 * acc + the (hex_value c)"
    have "foldl ?step acc (map to_upper_char (digits16 n)) =
        16 * foldl ?step acc (map to_upper_char (digits16 (n div 16))) + n mod 16"
      by (simp add: d m)
    also have "\<dots> = 16 * (acc * 16 ^ length (digits16 (n div 16)) + n div 16) + n mod 16"
      by (simp only: "1.IH" [OF False])
    also have "\<dots> = acc * 16 ^ length (digits16 n) + n"
      by (simp add: d algebra_simps)
    finally show ?thesis .
  qed
qed

lemma zeros_value:
  "foldl (\<lambda>acc c. 16 * acc + the (hex_value c)) 0 (replicate k CHR ''0'' @ s) =
   foldl (\<lambda>acc c. 16 * acc + the (hex_value c)) 0 s"
  by (induction k) (simp_all add: hex_value_specials)

lemma parse_hex_chars:
  assumes "s \<noteq> []" and hex: "\<forall>c \<in> set s. hex_value c \<noteq> None"
  shows "parse_int_16 s = Some (int (foldl (\<lambda>acc c. 16 * acc + the (hex_value c)) 0 s))"
    and "parse_int_16 (''0x'' @ s) =
           Some (int (foldl (\<lambda>acc c. 16 * acc + the (hex_value c)) 0 s))"
proof -
  from assms(1) obtain c cs where s: "s = c # cs" by (cases s) auto
  from hex s have c: "hex_value c \<noteq> None" by simp
  then have nw: "\<not> is_white_space c" by (auto dest: white_space_no_digit)
  from c have sign: "c \<noteq> CHR ''-''" "c \<noteq> CHR ''+''"
    using hex_value_specials by auto
  have np: "take 2 s \<noteq> ''0x''" "take 2 s \<noteq> ''0X''"
  proof -
    have "hd cs \<noteq> CHR ''x'' \<and> hd cs \<noteq> CHR ''X''" if "cs \<noteq> []"
    proof -
      from that have "hd cs \<in> set s" by (simp add: s)
      with hex have "hex_value (hd cs) \<noteq> None" by blast
      then show ?thesis using hex_value_specials by auto
    qed
    then show "take 2 s \<noteq> ''0x''" "take 2 s \<noteq> ''0X''"
      by (cases cs; simp add: s)+
  qed
  have tw: "takeWhile (\<lambda>c. \<exists>v. hex_value c = Some v) s = s"
    using hex by (simp add: takeWhile_eq_all_conv)
  have dw: "dropWhile is_white_space s = s"
    using nw by (simp add: s)
  have t1: "take 1 s = [c]" by (simp add: s)
  show "parse_int_16 s = Some (int (foldl (\<lambda>acc c. 16 * acc + the (hex_value c)) 0 s))"
    unfolding parse_int_16_def Let_def dw t1
    using sign np assms(1) by (simp add: tw)
  have dw0: "dropWhile is_white_space (''0x'' @ s) = ''0x'' @ s"
    by (simp add: hex_value_specials)
  show "parse_int_16 (''0x'' @ s) =
           Some (int (foldl (\<lambda>acc c. 16 * acc + the (hex_value c)) 0 s))"
    unfolding parse_int_16_def Let_def dw0
    using assms(1) by (simp add: tw)
qed

lemma dec_to_hex_body:
  assumes "0 \<le> n"
  shows "dec_to_hex n padding prefix do_round =
           (if prefix then ''0x'' else []) @
           replicate (nat (padding - int (length (digits16 (nat n))))) CHR ''0'' @
           map to_upper_char (digits16 (nat n))"
  using assms
  by (simp add: dec_to_hex_def Let_def pad_start_def to_string_16_def hex_value_specials)

text \<open>
  C7. For every integer \<open>n \<ge> 0\<close>, every padding and both values of the prefix (and
  rounding) option, \<open>hex_to_dec (dec_to_hex n ...)\<close> is \<open>n\<close>; and
  \<open>dec_to_hex(232) = "E8"\<close>, \<open>hex_to_dec("E8") = 232\<close>, \<open>dec_to_hex(12,2) = "0C"\<close>.
\<close>

theorem hex_round_trip:
  "(0 \<le> n \<longrightarrow> hex_to_dec (dec_to_hex n padding prefix do_round) = Some n) \<and>
   dec_to_hex 232 0 False True = ''E8'' \<and> hex_to_dec ''E8'' = Some 232 \<and>
   dec_to_hex 12 2 False True = ''0C''"
proof (intro conjI impI)
  assume n: "0 \<le> n"
  let ?body = "replicate (nat (padding - int (length (digits16 (nat n))))) CHR ''0'' @
           map to_upper_char (digits16 (nat n))"
  have ne: "?body \<noteq> []" by (simp add: digits16_nonempty)
  have hex: "\<forall>c \<in> set ?body. hex_value c \<noteq> None"
    using digits16_hex_chars [of _ "nat n"] by (auto simp: hex_value_specials)
  have val: "foldl (\<lambda>acc c. 16 * acc + the (hex_value c)) 0 ?body = nat n"
    by (simp only: zeros_value digits16_value mult_zero_left add_0)
  from parse_hex_chars [OF ne hex] val n
  have "parse_int_16 ?body = Some n" "parse_int_16 (''0x'' @ ?body) = Some n"
    by simp_all
  then show "hex_to_dec (dec_to_hex n padding prefix do_round) = Some n"
    by (simp add: hex_to_dec_def dec_to_hex_body [OF n])
next
  show "dec_to_hex 232 0 False True = ''E8''"
    by (simp add: dec_to_hex_def pad_start_def to_string_16_def digits16.simps
        hex_digit_def to_upper_char_def)
  show "hex_to_dec ''E8'' = Some 232"
    by (simp add: hex_to_dec_def parse_int_16_def is_white_space_def hex_value_def)
  show "dec_to_hex 12 2 False True = ''0C''"
    by (simp add: dec_to_hex_def pad_start_def to_string_16_def digits16.simps
        hex_digit_def to_upper_char_def)
qed

theorem hex_round_trip_witness:
  "(0::int) \<le> 14 \<and> dec_to_hex 14 2 True True = ''0x0E'' \<and> hex_to_dec ''0x0E'' = Some 14"
  using hex_round_trip [of 14 2 True True]
  by (simp add: dec_to_hex_def pad_start_def to_string_16_def digits16.simps
      hex_digit_def to_upper_char_def)

text \<open>
  Outside the claim: the documented inputs \<open>"0xF6"\<close> and \<open>"64h"\<close> of \<open>hex_to_dec\<close>,
  and a negative number, whose padded text does not read back.
\<close>

lemma hex_to_dec_examples:
  "hex_to_dec ''0xF6'' = Some 246 \<and> hex_to_dec ''64h'' = Some 100 \<and>
   dec_to_hex (- 232) 4 False True = ''0-E8'' \<and> hex_to_dec ''0-E8'' = Some 0"
  by (simp add: dec_to_hex_def pad_start_def to_string_16_def digits16.simps hex_digit_def
      to_upper_char_def hex_to_dec_def parse_int_16_def is_white_space_def hex_value_def)

subsection \<open>Normal random numbers\<close>

lemma box_muller_quarter: "box_muller (1 / 4) (1 / 4) = 1 / 2"
  by (simp add: box_muller_def)

lemma draw_nonzero_quarter: "draw_nonzero (\<lambda>j. 1 / 4) k = Some (1 / 4, k + 1)"
  by (subst draw_nonzero.simps) simp

text \<open>
  With skew \<open>0\<close>, a call whose two draws give a normalized value in \<open>[0,1]\<close> returns
  \<open>1 * (max - min) + min\<close>, each operation rounded.
\<close>

lemma random_normal_value_at_skew_zero:
  assumes "draw_nonzero rnd k = Some (u, k1)" "draw_nonzero rnd k1 = Some (v, k2)"
    and "0 \<le> box_muller u v" "box_muller u v \<le> 1"
  shows "random_normal rnd k mn mx 0 = Some (js_add (js_mul (Finite 1) (js_sub mx mn)) mn)"
proof -
  from assms(3,4) have "\<not> (box_muller u v > 1 \<or> box_muller u v < 0)" by auto
  with assms(1,2) show ?thesis
    by (subst random_normal.simps) (simp add: Let_def math_pow_def)
qed

text \<open>
  C9, as stated, fails: with \<open>min = -1e16\<close> and \<open>max = 1\<close> the difference
  \<open>1e16 + 1\<close> rounds to \<open>1e16\<close>, and the call returns \<open>0\<close>, not \<open>1\<close>.
\<close>

theorem random_normal_rounds_counterexample:
  "random_normal (\<lambda>j. 1 / 4) 0 (Finite (- 10000000000000000)) (Finite 1) 0 = Some (Finite 0)"
  by (subst random_normal.simps)
    (simp add: draw_nonzero_quarter box_muller_quarter math_pow_def js_sub_def
      round_double_1e16 round_double_small_ints)

text \<open>
  C9, amended. With skew \<open>0\<close>, a call of \<open>random_normal\<close> whose two draws give a
  normalized value in \<open>[0,1]\<close> returns \<open>1 * (max - min) + min\<close> in double arithmetic. That
  is \<open>max\<close> when \<open>min\<close> is \<open>0\<close> (the default), for every double \<open>max\<close>, and when
  \<open>min\<close> and \<open>max\<close> are integers below \<open>2^52\<close> in absolute value.
\<close>

theorem random_normal_skew_zero:
  "(\<forall>j. 0 \<le> rnd j \<and> rnd j < 1) \<and>
   draw_nonzero rnd k = Some (u, k1) \<and> draw_nonzero rnd k1 = Some (v, k2) \<and>
   0 \<le> box_muller u v \<and> box_muller u v \<le> 1 \<longrightarrow>
   random_normal rnd k mn mx 0 = Some (js_add (js_mul (Finite 1) (js_sub mx mn)) mn) \<and>
   (is_double m \<longrightarrow> random_normal rnd k (Finite 0) (Finite m) 0 = Some (Finite m)) \<and>
   (\<bar>a\<bar> < 2 ^ 52 \<and> \<bar>b\<bar> < 2 ^ 52 \<longrightarrow>
      random_normal rnd k (Finite (of_int a)) (Finite (of_int b)) 0 = Some (Finite (of_int b)))"
proof (intro impI conjI)
  assume h: "(\<forall>j. 0 \<le> rnd j \<and> rnd j < 1) \<and>
   draw_nonzero rnd k = Some (u, k1) \<and> draw_nonzero rnd k1 = Some (v, k2) \<and>
   0 \<le> box_muller u v \<and> box_muller u v \<le> 1"
  then have h1: "draw_nonzero rnd k = Some (u, k1)" and h2: "draw_nonzero rnd k1 = Some (v, k2)"
    and h3: "0 \<le> box_muller u v" and h4: "box_muller u v \<le> 1"
    by simp_all
  have val: "random_normal rnd k lo hi 0 =
      Some (js_add (js_mul (Finite 1) (js_sub hi lo)) lo)" for lo hi
    by (rule random_normal_value_at_skew_zero [OF h1 h2 h3 h4])
  show "random_normal rnd k mn mx 0 = Some (js_add (js_mul (Finite 1) (js_sub mx mn)) mn)"
    by (rule val)
  show "random_normal rnd k (Finite 0) (Finite m) 0 = Some (Finite m)" if "is_double m"
    using that by (simp add: val js_sub_def is_double_def)
  show "random_normal rnd k (Finite (of_int a)) (Finite (of_int b)) 0 = Some (Finite (of_int b))"
    if ab: "\<bar>a\<bar> < 2 ^ 52 \<and> \<bar>b\<bar> < 2 ^ 52"
  proof -
    from ab have a: "\<bar>a\<bar> < 2 ^ 52" and b: "\<bar>b\<bar> < 2 ^ 52" by simp_all
    from a b have d: "\<bar>b - a\<bar> < 2 ^ 53" by simp
    from b have s: "\<bar>(b - a) + a\<bar> < 2 ^ 53" by simp
    have "js_mul (Finite 1) (Finite (of_int (b - a))) = round_double (of_int (b - a))"
      by simp
    then have m1: "js_mul (Finite 1) (Finite (of_int (b - a))) = Finite (of_int (b - a))"
      using round_double_of_int [OF d] by (simp only:)
    have "js_add (Finite (of_int (b - a))) (Finite (of_int a)) = Finite (of_int ((b - a) + a))"
      using s by (rule js_add_int)
    then show ?thesis
      by (simp only: val js_sub_int [OF d] m1) simp
  qed
qed

theorem random_normal_skew_zero_witness:
  "(\<forall>j::nat. (0::real) \<le> 1 / 4 \<and> (1 / 4 :: real) < 1) \<and>
   draw_nonzero (\<lambda>j. 1 / 4) 0 = Some (1 / 4, 1) \<and>
   draw_nonzero (\<lambda>j. 1 / 4) 1 = Some (1 / 4, 2) \<and>
   0 \<le> box_muller (1 / 4) (1 / 4) \<and> box_muller (1 / 4) (1 / 4) \<le> 1 \<and>
   is_double 7 \<and> random_normal (\<lambda>j. 1 / 4) 0 (Finite 0) (Finite 7) 0 = Some (Finite 7) \<and>
   \<bar>3::int\<bar> < 2 ^ 52 \<and> \<bar>7::int\<bar> < 2 ^ 52 \<and>
   random_normal (\<lambda>j. 1 / 4) 0 (Finite 3) (Finite 7) 0 = Some (Finite 7)"
proof -
  have seven: "is_double 7"
    using round_double_of_int [of 7] by (simp add: is_double_def)
  have hyp: "(\<forall>j::nat. (0::real) \<le> 1 / 4 \<and> (1 / 4 :: real) < 1) \<and>
     draw_nonzero (\<lambda>j. 1 / 4) 0 = Some (1 / 4, 1) \<and>
     draw_nonzero (\<lambda>j. 1 / 4) 1 = Some (1 / 4, 2) \<and>
     0 \<le> box_muller (1 / 4) (1 / 4) \<and> box_muller (1 / 4) (1 / 4) \<le> 1"
    by (simp add: box_muller_quarter draw_nonzero_quarter)
  have small: "\<bar>3::int\<bar> < 2 ^ 52 \<and> \<bar>7::int\<bar> < 2 ^ 52" by simp
  from random_normal_skew_zero
    [of "\<lambda>j. 1 / 4" 0 "1 / 4" 1 "1 / 4" 2 "Finite 3" "Finite 7" 7 3 7] hyp seven small
  have "random_normal (\<lambda>j. 1 / 4) 0 (Finite 0) (Finite 7) 0 = Some (Finite 7)"
    and "random_normal (\<lambda>j. 1 / 4) 0 (Finite (of_int 3)) (Finite (of_int 7)) 0 =
      Some (Finite (of_int 7))"
    by blast+
  with hyp seven show ?thesis by simp
qed

text \<open>With skew \<open>1\<close> the same call stretches the normalized value into the range.\<close>

lemma random_normal_skew_one:
  assumes "draw_nonzero rnd k = Some (u, k1)" "draw_nonzero rnd k1 = Some (v, k2)"
    and "0 < box_muller u v" "box_muller u v \<le> 1"
  shows "random_normal rnd k mn mx 1 =
    Some (js_add (js_mul (Finite (box_muller u v)) (js_sub mx mn)) mn)"
  using assms by (subst random_normal.simps) (simp add: Let_def math_pow_def)

end
